theory Spec2Isabelle
  imports Complex_Main
begin

section \<open>Zone and travel model (front/src/App.jsx)\<close>

text \<open>
  JavaScript numbers are modelled as \<^typ>\<open>real\<close>; array indices and lengths as
  \<^typ>\<open>nat\<close>. An object literal used as a lookup table is a map from its own keys.
  Reading a property of \<open>undefined\<close> raises a TypeError in the source; the model returns
  it as a value. Only the own keys of the two tables are modelled as present.
\<close>

datatype error = TypeError | NoActivities

record zone =
  zone_x :: real
  zone_y :: real

definition ZONES :: "string \<rightharpoonup> zone" where
  "ZONES = map_of
     [(''Centro'', \<lparr>zone_x = 0, zone_y = 0\<rparr>),
      (''Norte'', \<lparr>zone_x = 0, zone_y = 15\<rparr>),
      (''Sur'', \<lparr>zone_x = 0, zone_y = - 15\<rparr>),
      (''Este'', \<lparr>zone_x = 15, zone_y = 0\<rparr>),
      (''Oeste'', \<lparr>zone_x = - 15, zone_y = 0\<rparr>)]"

record transport =
  speed :: real

definition TRANSPORT_TYPES :: "string \<rightharpoonup> transport" where
  "TRANSPORT_TYPES = map_of
     [(''bicicleta'', \<lparr>speed = 15\<rparr>),
      (''auto'', \<lparr>speed = 40\<rparr>),
      (''transporte_publico'', \<lparr>speed = 25\<rparr>)]"

text \<open>
  \<open>calculateTravelTime(zone1, zone2, transportType)\<close>: the early return on equal labels
  comes before any table lookup.
\<close>

definition calculateTravelTime :: "string \<Rightarrow> string \<Rightarrow> string \<Rightarrow> error + real" where
  "calculateTravelTime zone1 zone2 transportType =
     (if zone1 = zone2 then Inr 0
      else
        (case ZONES zone1 of
           None \<Rightarrow> Inl TypeError
         | Some z1 \<Rightarrow>
             (case ZONES zone2 of
                None \<Rightarrow> Inl TypeError
              | Some z2 \<Rightarrow>
                  (let dx = zone_x z1 - zone_x z2;
                       dy = zone_y z1 - zone_y z2;
                       distance = sqrt (dx * dx + dy * dy)
                   in (case TRANSPORT_TYPES transportType of
                         None \<Rightarrow> Inl TypeError
                       | Some t \<Rightarrow> Inr (distance / speed t))))))"

section \<open>The activity list of the form\<close>

record activity =
  act_id :: nat
  act_name :: string
  act_value :: real
  act_duration :: real
  act_open_time :: real
  act_close_time :: real
  act_zone :: string

text \<open>The fields of the "new activity" dialog, as the strings the inputs hold.\<close>

record new_activity =
  new_name :: string
  new_value :: string
  new_duration :: string
  new_open_time :: string
  new_close_time :: string
  new_zone :: string

text \<open>
  \<open>handleAddActivity\<close>: an empty field leaves the list as it is (after an alert);
  otherwise the new activity is appended with \<open>id = activities.length\<close>. The
  library function \<open>parseFloat\<close> is a parameter.
\<close>

definition handleAddActivity ::
    "(string \<Rightarrow> real) \<Rightarrow> new_activity \<Rightarrow> activity list \<Rightarrow> activity list" where
  "handleAddActivity parseFloat newActivity activities =
     (if new_name newActivity = [] \<or> new_value newActivity = [] \<or>
         new_duration newActivity = [] \<or> new_open_time newActivity = [] \<or>
         new_close_time newActivity = [] \<or> new_zone newActivity = []
      then activities
      else activities @
        [\<lparr>act_id = length activities,
          act_name = new_name newActivity,
          act_value = parseFloat (new_value newActivity),
          act_duration = parseFloat (new_duration newActivity),
          act_open_time = parseFloat (new_open_time newActivity),
          act_close_time = parseFloat (new_close_time newActivity),
          act_zone = new_zone newActivity\<rparr>])"

definition handleDeleteActivity :: "nat \<Rightarrow> activity list \<Rightarrow> activity list" where
  "handleDeleteActivity i activities = filter (\<lambda>act. act_id act \<noteq> i) activities"

datatype ui_op = AddActivity new_activity | DeleteActivity nat

fun ui_step :: "(string \<Rightarrow> real) \<Rightarrow> activity list \<Rightarrow> ui_op \<Rightarrow> activity list" where
  "ui_step parseFloat activities (AddActivity f) = handleAddActivity parseFloat f activities"
| "ui_step parseFloat activities (DeleteActivity i) = handleDeleteActivity i activities"

definition ui_run :: "(string \<Rightarrow> real) \<Rightarrow> ui_op list \<Rightarrow> activity list" where
  "ui_run parseFloat ops = foldl (ui_step parseFloat) [] ops"

section \<open>The request built by \<open>handleCalculate\<close>\<close>

record req_activity =
  req_id :: nat
  req_name :: string
  req_value :: real
  req_duration :: real
  req_open_time :: real
  req_close_time :: real

record request =
  activities :: "req_activity list"
  travel_time :: "real list list"
  travel_time_bicicleta :: "real list list"
  travel_time_auto :: "real list list"
  travel_time_transporte_publico :: "real list list"
  penalized_transport :: string
  tmax :: real
  alpha :: real

text \<open>
  \<open>Array(n).fill(0).map(f)\<close> calls \<open>f\<close> on the indices \<open>0 .. n-1\<close> in order; an
  exception in one call abandons the whole construction.
\<close>

fun collect :: "(error + 'a) list \<Rightarrow> error + 'a list" where
  "collect [] = Inr []"
| "collect (r # rs) =
     (case r of
        Inl e \<Rightarrow> Inl e
      | Inr v \<Rightarrow> (case collect rs of Inl e \<Rightarrow> Inl e | Inr vs \<Rightarrow> Inr (v # vs)))"

definition mode_matrix :: "activity list \<Rightarrow> string \<Rightarrow> error + real list list" where
  "mode_matrix acts transportType =
     (let n = length acts in
      collect (map (\<lambda>i. collect (map (\<lambda>j.
        if i = j then Inr 0
        else calculateTravelTime (act_zone (acts ! i)) (act_zone (acts ! j)) transportType)
        [0..<n])) [0..<n]))"

definition min_matrix ::
    "nat \<Rightarrow> real list list \<Rightarrow> real list list \<Rightarrow> real list list \<Rightarrow> real list list" where
  "min_matrix n travelTimeBicicleta travelTimeAuto travelTimeTransportePublico =
     map (\<lambda>i. map (\<lambda>j.
       if i = j then 0
       else min (travelTimeBicicleta ! i ! j)
              (min (travelTimeAuto ! i ! j) (travelTimeTransportePublico ! i ! j)))
       [0..<n]) [0..<n]"

definition reindexedActivities :: "activity list \<Rightarrow> req_activity list" where
  "reindexedActivities acts =
     map (\<lambda>(idx, act).
       \<lparr>req_id = idx, req_name = act_name act, req_value = act_value act,
        req_duration = act_duration act, req_open_time = act_open_time act,
        req_close_time = act_close_time act\<rparr>)
       (enumerate 0 acts)"

text \<open>
  \<open>handleCalculate\<close> up to the request body. \<open>penalizedTransport\<close>, and the numbers
  that \<open>parseFloat\<close> reads from the \<open>tmax\<close> and \<open>alpha\<close> inputs, are parameters.
\<close>

definition handleCalculate ::
    "activity list \<Rightarrow> string \<Rightarrow> real \<Rightarrow> real \<Rightarrow> error + request" where
  "handleCalculate acts penalizedTransport tmax_in alpha_in =
     (if length acts = 0 then Inl NoActivities
      else
        (case mode_matrix acts ''bicicleta'' of
           Inl e \<Rightarrow> Inl e
         | Inr travelTimeBicicleta \<Rightarrow>
        (case mode_matrix acts ''auto'' of
           Inl e \<Rightarrow> Inl e
         | Inr travelTimeAuto \<Rightarrow>
        (case mode_matrix acts ''transporte_publico'' of
           Inl e \<Rightarrow> Inl e
         | Inr travelTimeTransportePublico \<Rightarrow>
             Inr \<lparr>activities = reindexedActivities acts,
                  travel_time = min_matrix (length acts) travelTimeBicicleta travelTimeAuto
                                  travelTimeTransportePublico,
                  travel_time_bicicleta = travelTimeBicicleta,
                  travel_time_auto = travelTimeAuto,
                  travel_time_transporte_publico = travelTimeTransportePublico,
                  penalized_transport = penalizedTransport,
                  tmax = tmax_in,
                  alpha = alpha_in\<rparr>))))"


text \<open>The first example data set of the form (\<open>handleLoadExampleActivities\<close>); the
  display names are written in ASCII.\<close>

definition exampleActivities :: "activity list" where
  "exampleActivities =
     [\<lparr>act_id = 0, act_name = ''Desayuno'', act_value = 3, act_duration = 0.5,
        act_open_time = 7, act_close_time = 9, act_zone = ''Centro''\<rparr>,
      \<lparr>act_id = 1, act_name = ''Gimnasio'', act_value = 8, act_duration = 1,
        act_open_time = 7, act_close_time = 11, act_zone = ''Norte''\<rparr>,
      \<lparr>act_id = 2, act_name = ''Clases'', act_value = 12, act_duration = 2,
        act_open_time = 8, act_close_time = 12, act_zone = ''Centro''\<rparr>,
      \<lparr>act_id = 3, act_name = ''Biblioteca'', act_value = 10, act_duration = 2,
        act_open_time = 9, act_close_time = 18, act_zone = ''Este''\<rparr>,
      \<lparr>act_id = 4, act_name = ''Almuerzo'', act_value = 5, act_duration = 1,
        act_open_time = 12, act_close_time = 15, act_zone = ''Centro''\<rparr>,
      \<lparr>act_id = 5, act_name = ''Trabajo grupal'', act_value = 9, act_duration = 1.5,
        act_open_time = 13, act_close_time = 17, act_zone = ''Sur''\<rparr>,
      \<lparr>act_id = 6, act_name = ''Supermercado'', act_value = 6, act_duration = 0.5,
        act_open_time = 10, act_close_time = 20, act_zone = ''Oeste''\<rparr>,
      \<lparr>act_id = 7, act_name = ''Descanso'', act_value = 4, act_duration = 1,
        act_open_time = 14, act_close_time = 18, act_zone = ''Norte''\<rparr>,
      \<lparr>act_id = 8, act_name = ''Cena'', act_value = 6, act_duration = 1,
        act_open_time = 19, act_close_time = 22, act_zone = ''Centro''\<rparr>,
      \<lparr>act_id = 9, act_name = ''Recreacion'', act_value = 7, act_duration = 1.5,
        act_open_time = 17, act_close_time = 21, act_zone = ''Sur''\<rparr>]"

text \<open>
  A travel matrix of dimension \<open>n\<close> that is square, has a zero diagonal and is
  symmetric.
\<close>

definition square_zero_sym :: "nat \<Rightarrow> real list list \<Rightarrow> bool" where
  "square_zero_sym n m \<longleftrightarrow>
     length m = n \<and> (\<forall>i < n. length (m ! i) = n) \<and> (\<forall>i < n. m ! i ! i = 0) \<and>
     (\<forall>i < n. \<forall>j < n. m ! i ! j = m ! j ! i)"

text \<open>A dialog with every field filled in, as \<open>handleAddActivity\<close> requires.\<close>

definition filledForm :: new_activity where
  "filledForm = \<lparr>new_name = ''Gimnasio'', new_value = ''8'', new_duration = ''1'',
     new_open_time = ''7'', new_close_time = ''11'', new_zone = ''Norte''\<rparr>"

section \<open>The optimization service\<close>

text \<open>
  The service behind \<open>/optimize\<close> is not part of the source: App.jsx only builds its
  request and shows its response. This section models it from sections 3, 4 and 6 of the
  specification, with section 4.2 as the design of the search. Clock times and elapsed
  times are the same quantity there: the start state has elapsed time 0 and a
  transition compares its finish time both with the closing time and with the budget.
\<close>

text \<open>Modelled from the spec: the RunConfig of section 3 (time budget, discouraged mode,
  weight); the service that reads it is missing from the source.\<close>

record run_config =
  time_budget :: real
  discouraged_mode :: string
  weight :: real

text \<open>Modelled from the spec: the input of the Problem Encoder of section 4.1 (raw
  activity list, combined matrix, discouraged-mode matrix, RunConfig); the encoder is
  missing from the source.\<close>

record encoder_input =
  in_activities :: "req_activity list"
  in_combined :: "real list list"
  in_discouraged :: "real list list"
  in_config :: run_config

text \<open>Modelled from the spec: the Validation error of sections 4.1 and 7, carrying the
  name of the offending field; the encoder that raises it is missing from the source.\<close>

datatype validation_error = Validation string

text \<open>Modelled from the spec: the problem instance that the missing Problem Encoder of
  section 4.1 produces (filtered activities, the two reindexed matrices, RunConfig).\<close>

record problem =
  p_activities :: "req_activity list"
  p_combined :: "real list list"
  p_discouraged :: "real list list"
  p_config :: run_config

text \<open>Modelled from the spec: the activity checks of the missing Problem Encoder
  (section 4.1): \<open>close_time \<le> open_time\<close>, \<open>duration \<le> 0\<close>, or a duration that exceeds
  the activity's own window.\<close>

definition validate_activity :: "req_activity \<Rightarrow> validation_error option" where
  "validate_activity a =
     (if req_close_time a \<le> req_open_time a then Some (Validation ''close_time'')
      else if req_duration a \<le> 0 then Some (Validation ''duration'')
      else if req_close_time a - req_open_time a < req_duration a
        then Some (Validation ''duration'')
      else None)"

text \<open>Modelled from the spec: the RunConfig checks of the missing Problem Encoder
  (section 4.1): \<open>time_budget \<le> 0\<close> or \<open>weight < 0\<close>.\<close>

definition validate_config :: "run_config \<Rightarrow> validation_error option" where
  "validate_config c =
     (if time_budget c \<le> 0 then Some (Validation ''time_budget'')
      else if weight c < 0 then Some (Validation ''weight'')
      else None)"

text \<open>Modelled from the spec: the up-front exclusion of section 3 in the missing Problem
  Encoder: an activity whose duration exceeds its window is not kept.\<close>

definition fits_window :: "req_activity \<Rightarrow> bool" where
  "fits_window a \<longleftrightarrow> req_duration a \<le> req_close_time a - req_open_time a"

text \<open>Modelled from the spec: the missing Problem Encoder of section 4.1. It fails on the
  first activity or configuration check that fails; otherwise it keeps the activities
  that fit their window (with their ids) and reindexes both matrices to the kept
  positions. The request contract of section 6 makes both matrices square of the
  dimension of the activity list.\<close>

definition encode :: "encoder_input \<Rightarrow> validation_error + problem" where
  "encode inp =
     (case List.map_filter validate_activity (in_activities inp) of
        e # es \<Rightarrow> Inl e
      | [] \<Rightarrow>
          (case validate_config (in_config inp) of
             Some e \<Rightarrow> Inl e
           | None \<Rightarrow>
               (let keep = filter (\<lambda>i. fits_window (in_activities inp ! i))
                             [0..<length (in_activities inp)]
                in Inr \<lparr>p_activities = map (\<lambda>i. in_activities inp ! i) keep,
                        p_combined = map (\<lambda>i. map (\<lambda>j. in_combined inp ! i ! j) keep) keep,
                        p_discouraged =
                          map (\<lambda>i. map (\<lambda>j. in_discouraged inp ! i ! j) keep) keep,
                        p_config = in_config inp\<rparr>)))"

text \<open>Modelled from the spec: the Schedule of section 3, the node of the missing Search
  Engine: the route (positions in the problem's activity list, in visiting order), the
  elapsed time after the last activity, the set of used activities, the cumulative value
  and the cumulative exposure to the discouraged mode.\<close>

record schedule =
  s_route :: "nat list"
  s_elapsed :: real
  s_used :: "nat set"
  s_value :: real
  s_exposure :: real

text \<open>Modelled from the spec: the start state of the missing Search Engine (section
  4.2): the empty Schedule at elapsed time 0.\<close>

definition empty_schedule :: schedule where
  "empty_schedule =
     \<lparr>s_route = [], s_elapsed = 0, s_used = {}, s_value = 0, s_exposure = 0\<rparr>"

text \<open>Modelled from the spec: the matrix entry \<open>(p, q)\<close> for the previous activity \<open>p\<close> of
  a route in the missing Search Engine (section 4.2); from the start state there is
  no previous activity and nothing is travelled (as in Scenario C of section 8).\<close>

definition hop :: "real list list \<Rightarrow> nat list \<Rightarrow> nat \<Rightarrow> real" where
  "hop M route q = (if route = [] then 0 else M ! last route ! q)"

text \<open>Modelled from the spec: one expansion step of the missing Search Engine (section
  4.2): arrival, start (waiting for the opening time), finish; the transition is legal
  only if the finish is no later than the closing time and the time budget.\<close>

definition transition :: "problem \<Rightarrow> schedule \<Rightarrow> nat \<Rightarrow> schedule option" where
  "transition P s q =
     (if q \<in> s_used s then None
      else
        (let a = p_activities P ! q;
             arrival = s_elapsed s + hop (p_combined P) (s_route s) q;
             start = max arrival (req_open_time a);
             finish = start + req_duration a
         in if finish \<le> req_close_time a \<and> finish \<le> time_budget (p_config P)
            then Some \<lparr>s_route = s_route s @ [q],
                       s_elapsed = finish,
                       s_used = insert q (s_used s),
                       s_value = s_value s + req_value a,
                       s_exposure = s_exposure s + hop (p_discouraged P) (s_route s) q\<rparr>
            else None))"

text \<open>Modelled from the spec: the successors of a Schedule in the missing Search Engine
  (section 4.2), one for every not-yet-visited activity with a legal transition.\<close>

definition expand :: "problem \<Rightarrow> schedule \<Rightarrow> schedule list" where
  "expand P s = List.map_filter (transition P s) [0..<length (p_activities P)]"

text \<open>Modelled from the spec: the objective of section 4.2 of the missing Search Engine,
  cumulative value minus weight times cumulative discouraged exposure.\<close>

definition sched_objective :: "problem \<Rightarrow> schedule \<Rightarrow> real" where
  "sched_objective P s = s_value s - weight (p_config P) * s_exposure s"

text \<open>Modelled from the spec: the bound function of section 4.2 of the missing Search
  Engine: cumulative value plus the value of all unvisited activities minus weight
  times cumulative discouraged exposure.\<close>

definition bound :: "problem \<Rightarrow> schedule \<Rightarrow> real" where
  "bound P s =
     s_value s
     + sum_list (map (\<lambda>q. req_value (p_activities P ! q))
         (filter (\<lambda>q. q \<notin> s_used s) [0..<length (p_activities P)]))
     - weight (p_config P) * s_exposure s"

text \<open>Modelled from the spec: the activity-id sequence of a Schedule, used by the
  tie-break of section 4.2 of the missing Search Engine.\<close>

definition route_ids :: "problem \<Rightarrow> schedule \<Rightarrow> nat list" where
  "route_ids P s = map (\<lambda>q. req_id (p_activities P ! q)) (s_route s)"

text \<open>Modelled from the spec: "lexicographically smaller" of the tie-break of section
  4.2 of the missing Search Engine.\<close>

fun lex_less :: "nat list \<Rightarrow> nat list \<Rightarrow> bool" where
  "lex_less [] [] = False"
| "lex_less [] (y # ys) = True"
| "lex_less (x # xs) [] = False"
| "lex_less (x # xs) (y # ys) = (x < y \<or> (x = y \<and> lex_less xs ys))"

text \<open>Modelled from the spec: the preference among complete Schedules (section 4.2 of
  the missing Search Engine): higher objective, then lower elapsed time, then the
  lexicographically smaller id sequence.\<close>

definition better :: "problem \<Rightarrow> schedule \<Rightarrow> schedule \<Rightarrow> bool" where
  "better P c b \<longleftrightarrow>
     sched_objective P b < sched_objective P c \<or>
     (sched_objective P c = sched_objective P b \<and>
       (s_elapsed c < s_elapsed b \<or>
        (s_elapsed c = s_elapsed b \<and> lex_less (route_ids P c) (route_ids P b))))"

text \<open>Modelled from the spec: the frontier order of section 4.2 of the missing Search
  Engine: higher bound first, and on equal bounds fewer visited activities first.\<close>

definition before :: "problem \<Rightarrow> schedule \<Rightarrow> schedule \<Rightarrow> bool" where
  "before P a b \<longleftrightarrow>
     bound P b < bound P a \<or>
     (bound P a = bound P b \<and> length (s_route a) < length (s_route b))"

text \<open>Modelled from the spec: insertion into the priority frontier of the missing
  Search Engine (section 4.2), kept in frontier order; a Schedule goes behind those it
  ties with.\<close>

fun push :: "problem \<Rightarrow> schedule \<Rightarrow> schedule list \<Rightarrow> schedule list" where
  "push P c [] = [c]"
| "push P c (x # xs) = (if before P c x then c # x # xs else x # push P c xs)"

text \<open>Modelled from the spec: the best-first loop of the missing Search Engine (section
  4.2). The first argument is the node-expansion limit; when it is used up, or when
  no Schedule of the frontier has a bound better than the best objective found, the
  best Schedule found so far is returned. Every successor generated is a candidate.\<close>

fun search :: "problem \<Rightarrow> nat \<Rightarrow> schedule list \<Rightarrow> schedule \<Rightarrow> schedule" where
  "search P 0 frontier best = best"
| "search P (Suc limit) frontier best =
     (case filter (\<lambda>s. sched_objective P best < bound P s) frontier of
        [] \<Rightarrow> best
      | s # rest \<Rightarrow>
          (let successors = expand P s;
               best' = foldl (\<lambda>b c. if better P c b then c else b) best successors;
               frontier' = foldl (\<lambda>f c. push P c f) rest successors
           in search P limit frontier' best'))"

text \<open>Modelled from the spec: the missing Search Engine of section 4.2, started from the
  empty Schedule, which is also the first candidate.\<close>

definition engine :: "nat \<Rightarrow> problem \<Rightarrow> schedule" where
  "engine limit P = search P limit [empty_schedule] empty_schedule"

text \<open>Modelled from the spec: the consecutive pairs of a route, over which the missing
  Objective Evaluator of section 4.3 sums travel.\<close>

fun legs :: "nat list \<Rightarrow> (nat \<times> nat) list" where
  "legs [] = []"
| "legs [p] = []"
| "legs (p # q # route) = (p, q) # legs (q # route)"

text \<open>Modelled from the spec: the result of the missing Objective Evaluator (section
  4.3).\<close>

record metrics =
  m_total_value :: real
  m_total_travel_cost :: real
  m_discouraged_travel_cost :: real
  m_final_time :: real
  m_objective :: real

text \<open>Modelled from the spec: the missing Objective Evaluator of section 4.3, a pure
  function of a Schedule.\<close>

definition evaluate :: "problem \<Rightarrow> schedule \<Rightarrow> metrics" where
  "evaluate P s =
     (let total_value = sum_list (map (\<lambda>q. req_value (p_activities P ! q)) (s_route s));
          discouraged = sum_list (map (\<lambda>(p, q). p_discouraged P ! p ! q) (legs (s_route s)))
      in \<lparr>m_total_value = total_value,
          m_total_travel_cost =
            sum_list (map (\<lambda>(p, q). p_combined P ! p ! q) (legs (s_route s))),
          m_discouraged_travel_cost = discouraged,
          m_final_time = s_elapsed s,
          m_objective = total_value - weight (p_config P) * discouraged\<rparr>)"

text \<open>Modelled from the spec: the response of section 6 that the missing Result Builder
  produces.\<close>

record response =
  resp_total_value :: real
  resp_total_travel_cost :: real
  resp_penalized_travel_cost :: real
  resp_final_time :: real
  resp_objective :: real
  resp_route :: "req_activity list"

text \<open>Modelled from the spec: the missing Result Builder of section 4.4.\<close>

definition build_result :: "problem \<Rightarrow> schedule \<Rightarrow> response" where
  "build_result P s =
     (let m = evaluate P s
      in \<lparr>resp_total_value = m_total_value m,
          resp_total_travel_cost = m_total_travel_cost m,
          resp_penalized_travel_cost = m_discouraged_travel_cost m,
          resp_final_time = m_final_time m,
          resp_objective = m_objective m,
          resp_route = map (\<lambda>q. p_activities P ! q) (s_route s)\<rparr>)"

text \<open>Modelled from the spec: one optimization run of the missing service (section 2):
  Encoder, then Engine, then Result Builder; a Validation error ends the run before
  the search.\<close>

definition optimize :: "nat \<Rightarrow> encoder_input \<Rightarrow> validation_error + response" where
  "optimize limit inp =
     (case encode inp of
        Inl e \<Rightarrow> Inl e
      | Inr P \<Rightarrow> Inr (build_result P (engine limit P)))"

text \<open>Modelled from the spec: the input of Scenario C of section 8 for the missing
  service, with the time budget as a parameter: activities A and B, combined travel
  0.375 h and bicycle travel 1 h between them, weight 0.5.\<close>

definition scenarioC :: "real \<Rightarrow> encoder_input" where
  "scenarioC budget =
     \<lparr>in_activities =
        [\<lparr>req_id = 0, req_name = ''A'', req_value = 10, req_duration = 1,
           req_open_time = 8, req_close_time = 10\<rparr>,
         \<lparr>req_id = 1, req_name = ''B'', req_value = 8, req_duration = 1,
           req_open_time = 9, req_close_time = 12\<rparr>],
      in_combined = [[0, 3 / 8], [3 / 8, 0]],
      in_discouraged = [[0, 1], [1, 0]],
      in_config = \<lparr>time_budget = budget, discouraged_mode = ''bicicleta'', weight = 1 / 2\<rparr>\<rparr>"

text \<open>Modelled from the spec: the timing of a route of the missing Search Engine as
  sections 3 and 4.2 describe it, independently of the search: for each activity of the
  route its arrival, actual start (after any wait for the opening time) and finish,
  starting at time \<open>t\<close> after the activities \<open>prev\<close>.\<close>

fun timeline :: "problem \<Rightarrow> real \<Rightarrow> nat list \<Rightarrow> nat list \<Rightarrow> (real \<times> real \<times> real) list" where
  "timeline P t prev [] = []"
| "timeline P t prev (q # qs) =
     (let arrival = t + hop (p_combined P) prev q;
          start = max arrival (req_open_time (p_activities P ! q));
          finish = start + req_duration (p_activities P ! q)
      in (arrival, start, finish) # timeline P finish (prev @ [q]) qs)"

text \<open>Modelled from the spec: the clock after a route of the missing Search Engine, the
  finish of its last activity.\<close>

fun clock_after :: "problem \<Rightarrow> real \<Rightarrow> nat list \<Rightarrow> nat list \<Rightarrow> real" where
  "clock_after P t prev [] = t"
| "clock_after P t prev (q # qs) =
     (let arrival = t + hop (p_combined P) prev q;
          start = max arrival (req_open_time (p_activities P ! q));
          finish = start + req_duration (p_activities P ! q)
      in clock_after P finish (prev @ [q]) qs)"

text \<open>Modelled from the spec: the window invariant of section 3 for one visit of a
  Schedule of the missing Search Engine: the start is not before the arrival (the wait
  is not negative), not before the opening time and not after closing time minus
  duration, and the finish is within the time budget.\<close>

definition visit_ok :: "problem \<Rightarrow> nat \<times> real \<times> real \<times> real \<Rightarrow> bool" where
  "visit_ok P v =
     (case v of (q, arrival, start, finish) \<Rightarrow>
        arrival \<le> start \<and>
        req_open_time (p_activities P ! q) \<le> start \<and>
        start \<le> req_close_time (p_activities P ! q) - req_duration (p_activities P ! q) \<and>
        finish \<le> time_budget (p_config P))"

text \<open>Modelled from the spec: "all windows respected" (sections 3 and 8) for a route of
  the missing Search Engine.\<close>

definition windows_respected :: "problem \<Rightarrow> nat list \<Rightarrow> bool" where
  "windows_respected P route = list_all (visit_ok P) (zip route (timeline P 0 [] route))"

text \<open>Modelled from the spec: the total elapsed time of section 3 for a route of the
  missing Search Engine: the sum of travel, durations and waits.\<close>

definition total_elapsed :: "problem \<Rightarrow> nat list \<Rightarrow> real" where
  "total_elapsed P route =
     sum_list (map (\<lambda>(p, q). p_combined P ! p ! q) (legs route))
     + sum_list (map (\<lambda>q. req_duration (p_activities P ! q)) route)
     + sum_list (map (\<lambda>(arrival, start, finish). start - arrival) (timeline P 0 [] route))"


text \<open>Modelled from the spec: a Schedule of the missing Search Engine whose fields agree
  with its route (section 3): the used set, the cumulative value, the cumulative
  exposure and the elapsed time are those of the route.\<close>

definition consistent :: "problem \<Rightarrow> schedule \<Rightarrow> bool" where
  "consistent P s \<longleftrightarrow>
     s_used s = set (s_route s) \<and>
     s_value s = sum_list (map (\<lambda>q. req_value (p_activities P ! q)) (s_route s)) \<and>
     s_exposure s = sum_list (map (\<lambda>(p, q). p_discouraged P ! p ! q) (legs (s_route s))) \<and>
     s_elapsed s = clock_after P 0 [] (s_route s)"

text \<open>Modelled from the spec: Scenario B of section 8 as input of the missing service: one
  activity whose duration (3) exceeds its window (8 to 9).\<close>

definition scenarioB :: encoder_input where
  "scenarioB =
     \<lparr>in_activities =
        [\<lparr>req_id = 0, req_name = ''B'', req_value = 10, req_duration = 3,
           req_open_time = 8, req_close_time = 9\<rparr>],
      in_combined = [[0]],
      in_discouraged = [[0]],
      in_config = \<lparr>time_budget = 5, discouraged_mode = ''bicicleta'', weight = 1 / 2\<rparr>\<rparr>"

text \<open>Modelled from the spec: a Schedule of the missing Search Engine that satisfies the
  invariants of section 3: consistent fields, no activity twice, only activities of the
  problem, every window respected and the elapsed time within the budget.\<close>

definition valid_schedule :: "problem \<Rightarrow> schedule \<Rightarrow> bool" where
  "valid_schedule P s \<longleftrightarrow>
     consistent P s \<and> distinct (s_route s) \<and>
     list_all (\<lambda>q. q < length (p_activities P)) (s_route s) \<and>
     windows_respected P (s_route s) \<and> s_elapsed s \<le> time_budget (p_config P)"



section \<open>Properties of the travel model\<close>

lemma sqrt_225: "sqrt 225 = 15"
  by (rule real_sqrt_unique) simp_all

lemma ZONES_dom: "dom ZONES = {''Centro'', ''Norte'', ''Sur'', ''Este'', ''Oeste''}"
  unfolding ZONES_def
  by (simp only: dom_map_of_conv_image_fst list.simps image_insert image_empty fst_conv)

lemma TRANSPORT_TYPES_dom:
  "dom TRANSPORT_TYPES = {''bicicleta'', ''auto'', ''transporte_publico''}"
  unfolding TRANSPORT_TYPES_def
  by (simp only: dom_map_of_conv_image_fst list.simps image_insert image_empty fst_conv)

lemma ZONES_table:
  "ZONES ''Centro'' = Some \<lparr>zone_x = 0, zone_y = 0\<rparr>"
  "ZONES ''Norte'' = Some \<lparr>zone_x = 0, zone_y = 15\<rparr>"
  "ZONES ''Sur'' = Some \<lparr>zone_x = 0, zone_y = - 15\<rparr>"
  "ZONES ''Este'' = Some \<lparr>zone_x = 15, zone_y = 0\<rparr>"
  "ZONES ''Oeste'' = Some \<lparr>zone_x = - 15, zone_y = 0\<rparr>"
  by (simp_all add: ZONES_def)

lemma TRANSPORT_TYPES_table:
  "TRANSPORT_TYPES ''bicicleta'' = Some \<lparr>speed = 15\<rparr>"
  "TRANSPORT_TYPES ''auto'' = Some \<lparr>speed = 40\<rparr>"
  "TRANSPORT_TYPES ''transporte_publico'' = Some \<lparr>speed = 25\<rparr>"
  by (simp_all add: TRANSPORT_TYPES_def)

lemma ctt_gen:
  assumes "ZONES z1 = Some a" "ZONES z2 = Some b" "TRANSPORT_TYPES t = Some m"
  shows "calculateTravelTime z1 z2 t =
     Inr (sqrt ((zone_x a - zone_x b)\<^sup>2 + (zone_y a - zone_y b)\<^sup>2) / speed m)"
  using assms by (auto simp: calculateTravelTime_def Let_def power2_eq_square)

lemma ctt_same: "calculateTravelTime z z t = Inr 0"
  by (simp add: calculateTravelTime_def)

lemma ctt_dom:
  assumes "z1 \<in> dom ZONES" "z2 \<in> dom ZONES" "t \<in> dom TRANSPORT_TYPES"
  shows "\<exists>a b m. ZONES z1 = Some a \<and> ZONES z2 = Some b \<and> TRANSPORT_TYPES t = Some m \<and>
         calculateTravelTime z1 z2 t =
           Inr (sqrt ((zone_x a - zone_x b)\<^sup>2 + (zone_y a - zone_y b)\<^sup>2) / speed m)"
proof -
  from assms obtain a b m
    where *: "ZONES z1 = Some a" "ZONES z2 = Some b" "TRANSPORT_TYPES t = Some m"
    by (auto simp: dom_def)
  from ctt_gen[OF *] * show ?thesis by blast
qed

text \<open>
  Claim C1. The zone table holds Centro(0,0), Norte(0,15), Sur(0,-15), Este(15,0) and
  Oeste(-15,0), the speeds are 15 (bicicleta), 40 (auto) and 25 (transporte_publico), and
  for every ordered pair of these zones and every one of these modes
  \<open>calculateTravelTime\<close> returns the Euclidean distance between the two zones'
  coordinates divided by the mode's speed, which is 0 when the two labels are the same.
\<close>

theorem calculateTravelTime_euclidean:
  "ZONES ''Centro'' = Some \<lparr>zone_x = 0, zone_y = 0\<rparr> \<and>
   ZONES ''Norte'' = Some \<lparr>zone_x = 0, zone_y = 15\<rparr> \<and>
   ZONES ''Sur'' = Some \<lparr>zone_x = 0, zone_y = - 15\<rparr> \<and>
   ZONES ''Este'' = Some \<lparr>zone_x = 15, zone_y = 0\<rparr> \<and>
   ZONES ''Oeste'' = Some \<lparr>zone_x = - 15, zone_y = 0\<rparr> \<and>
   TRANSPORT_TYPES ''bicicleta'' = Some \<lparr>speed = 15\<rparr> \<and>
   TRANSPORT_TYPES ''auto'' = Some \<lparr>speed = 40\<rparr> \<and>
   TRANSPORT_TYPES ''transporte_publico'' = Some \<lparr>speed = 25\<rparr> \<and>
   (\<forall>z1 \<in> {''Centro'', ''Norte'', ''Sur'', ''Este'', ''Oeste''}.
    \<forall>z2 \<in> {''Centro'', ''Norte'', ''Sur'', ''Este'', ''Oeste''}.
    \<forall>t \<in> {''bicicleta'', ''auto'', ''transporte_publico''}.
      (\<exists>a b m. ZONES z1 = Some a \<and> ZONES z2 = Some b \<and> TRANSPORT_TYPES t = Some m \<and>
         calculateTravelTime z1 z2 t =
           Inr (sqrt ((zone_x a - zone_x b)\<^sup>2 + (zone_y a - zone_y b)\<^sup>2) / speed m)) \<and>
      (z1 = z2 \<longrightarrow> calculateTravelTime z1 z2 t = Inr 0))"
proof -
  have gen: "\<forall>z1 \<in> dom ZONES. \<forall>z2 \<in> dom ZONES. \<forall>t \<in> dom TRANSPORT_TYPES.
      (\<exists>a b m. ZONES z1 = Some a \<and> ZONES z2 = Some b \<and> TRANSPORT_TYPES t = Some m \<and>
         calculateTravelTime z1 z2 t =
           Inr (sqrt ((zone_x a - zone_x b)\<^sup>2 + (zone_y a - zone_y b)\<^sup>2) / speed m)) \<and>
      (z1 = z2 \<longrightarrow> calculateTravelTime z1 z2 t = Inr 0)"
    using ctt_dom ctt_same by blast
  show ?thesis
    using gen unfolding ZONES_dom TRANSPORT_TYPES_dom
    by (simp only: ZONES_table TRANSPORT_TYPES_table simp_thms)
qed

theorem calculateTravelTime_euclidean_witness:
  "calculateTravelTime ''Centro'' ''Norte'' ''auto'' = Inr (3 / 8) \<and>
   calculateTravelTime ''Norte'' ''Norte'' ''auto'' = Inr 0"
proof -
  have m: "''Centro'' \<in> {''Centro'', ''Norte'', ''Sur'', ''Este'', ''Oeste''}"
     "''Norte'' \<in> {''Centro'', ''Norte'', ''Sur'', ''Este'', ''Oeste''}"
     "''auto'' \<in> {''bicicleta'', ''auto'', ''transporte_publico''}" by simp_all
  from calculateTravelTime_euclidean m
  have 1: "\<exists>a b m. ZONES ''Centro'' = Some a \<and> ZONES ''Norte'' = Some b \<and>
         TRANSPORT_TYPES ''auto'' = Some m \<and>
         calculateTravelTime ''Centro'' ''Norte'' ''auto'' =
           Inr (sqrt ((zone_x a - zone_x b)\<^sup>2 + (zone_y a - zone_y b)\<^sup>2) / speed m)"
    and 2: "calculateTravelTime ''Norte'' ''Norte'' ''auto'' = Inr 0"
    by blast+
  from 1 have "calculateTravelTime ''Centro'' ''Norte'' ''auto'' = Inr (3 / 8)"
    by (auto simp: ZONES_table TRANSPORT_TYPES_table sqrt_225)
  with 2 show ?thesis by simp
qed

section \<open>The matrices of the request\<close>

lemma collect_Inr:
  "collect xs = Inr ys \<Longrightarrow> length ys = length xs \<and> (\<forall>k<length xs. xs ! k = Inr (ys ! k))"
proof (induction xs arbitrary: ys)
  case Nil
  then show ?case by simp
next
  case (Cons r rs)
  from Cons.prems obtain v vs where r: "r = Inr v" and rs: "collect rs = Inr vs" and ys: "ys = v # vs"
    by (auto split: sum.splits)
  from Cons.IH[OF rs] have len: "length vs = length rs" and nth: "\<forall>k<length rs. rs ! k = Inr (vs ! k)"
    by simp_all
  show ?case
  proof (intro conjI allI impI)
    show "length ys = length (r # rs)" using len ys by simp
  next
    fix k assume "k < length (r # rs)"
    then show "(r # rs) ! k = Inr (ys ! k)"
      using r ys nth by (cases k) simp_all
  qed
qed

lemma collect_total:
  "(\<And>x. x \<in> set xs \<Longrightarrow> \<exists>y. x = Inr y) \<Longrightarrow> \<exists>ys. collect xs = Inr ys"
proof (induction xs)
  case Nil
  then show ?case by simp
next
  case (Cons r rs)
  from Cons.prems[of r] obtain v where r: "r = Inr v" by auto
  from Cons.IH Cons.prems obtain vs where "collect rs = Inr vs" by auto
  with r show ?case by simp
qed

lemma collect_map_upt:
  assumes "collect (map f [0..<n]) = Inr ys"
  shows "length ys = n" and "k < n \<Longrightarrow> f k = Inr (ys ! k)"
proof -
  from collect_Inr[OF assms]
  have len: "length ys = length (map f [0..<n])"
    and nth: "\<forall>k<length (map f [0..<n]). map f [0..<n] ! k = Inr (ys ! k)"
    by blast+
  show "length ys = n" using len by simp
  show "f k = Inr (ys ! k)" if "k < n"
  proof -
    have "map f [0..<n] ! k = f k" using that by simp
    moreover have "map f [0..<n] ! k = Inr (ys ! k)" using nth that by simp
    ultimately show ?thesis by simp
  qed
qed

lemma mode_matrix_length:
  assumes "mode_matrix acts t = Inr m"
  shows "length m = length acts"
  using collect_map_upt(1)[OF assms[unfolded mode_matrix_def Let_def]] .

lemma mode_matrix_row:
  assumes "mode_matrix acts t = Inr m" and "i < length acts"
  shows "collect (map (\<lambda>j. if i = j then Inr 0
              else calculateTravelTime (act_zone (acts ! i)) (act_zone (acts ! j)) t)
            [0..<length acts]) = Inr (m ! i)"
  using collect_map_upt(2)[OF assms(1)[unfolded mode_matrix_def Let_def] assms(2)] .

lemma mode_matrix_row_length:
  assumes "mode_matrix acts t = Inr m" and "i < length acts"
  shows "length (m ! i) = length acts"
  using collect_map_upt(1)[OF mode_matrix_row[OF assms]] .

lemma mode_matrix_entry:
  assumes "mode_matrix acts t = Inr m" and "i < length acts" and "j < length acts"
  shows "(if i = j then Inr 0
          else calculateTravelTime (act_zone (acts ! i)) (act_zone (acts ! j)) t) = Inr (m ! i ! j)"
  using collect_map_upt(2)[OF mode_matrix_row[OF assms(1,2)] assms(3)] .

lemma mode_matrix_diag:
  assumes "mode_matrix acts t = Inr m" and "i < length acts"
  shows "m ! i ! i = 0"
  using mode_matrix_entry[OF assms assms(2)] by simp

lemma ctt_total:
  assumes "z1 \<in> dom ZONES" "z2 \<in> dom ZONES" "t \<in> dom TRANSPORT_TYPES"
  shows "\<exists>v. calculateTravelTime z1 z2 t = Inr v"
  using assms by (auto simp: calculateTravelTime_def Let_def)

lemma mode_matrix_total:
  assumes z: "\<And>a. a \<in> set acts \<Longrightarrow> act_zone a \<in> dom ZONES" and t: "t \<in> dom TRANSPORT_TYPES"
  shows "\<exists>m. mode_matrix acts t = Inr m"
  unfolding mode_matrix_def Let_def
proof (rule collect_total)
  fix r assume "r \<in> set (map (\<lambda>i. collect (map (\<lambda>j. if i = j then Inr 0
              else calculateTravelTime (act_zone (acts ! i)) (act_zone (acts ! j)) t)
            [0..<length acts])) [0..<length acts])"
  then obtain i where i: "i < length acts" and r: "r = collect (map (\<lambda>j. if i = j then Inr 0
              else calculateTravelTime (act_zone (acts ! i)) (act_zone (acts ! j)) t)
            [0..<length acts])" by auto
  have "\<exists>ys. r = Inr ys" unfolding r
  proof (rule collect_total)
    fix e assume "e \<in> set (map (\<lambda>j. if i = j then Inr 0
              else calculateTravelTime (act_zone (acts ! i)) (act_zone (acts ! j)) t)
            [0..<length acts])"
    then obtain j where j: "j < length acts" and e: "e = (if i = j then Inr 0
              else calculateTravelTime (act_zone (acts ! i)) (act_zone (acts ! j)) t)" by auto
    show "\<exists>y. e = Inr y"
      using ctt_total[OF z[OF nth_mem[OF i]] z[OF nth_mem[OF j]] t] e by auto
  qed
  then show "\<exists>y. r = Inr y" .
qed

lemma handleCalculate_Inr:
  assumes "handleCalculate acts pt tm al = Inr req"
  shows "acts \<noteq> []"
    and "mode_matrix acts ''bicicleta'' = Inr (travel_time_bicicleta req)"
    and "mode_matrix acts ''auto'' = Inr (travel_time_auto req)"
    and "mode_matrix acts ''transporte_publico'' = Inr (travel_time_transporte_publico req)"
    and "travel_time req = min_matrix (length acts) (travel_time_bicicleta req)
           (travel_time_auto req) (travel_time_transporte_publico req)"
    and "activities req = reindexedActivities acts"
  using assms by (auto simp: handleCalculate_def split: if_splits sum.splits)

lemma handleCalculate_total:
  assumes "acts \<noteq> []" and "\<And>a. a \<in> set acts \<Longrightarrow> act_zone a \<in> dom ZONES"
  shows "\<exists>req. handleCalculate acts pt tm al = Inr req"
proof -
  obtain b where b: "mode_matrix acts ''bicicleta'' = Inr b"
    using mode_matrix_total[OF assms(2), where t = "''bicicleta''"] by (auto simp: TRANSPORT_TYPES_table dom_def)
  obtain a where a: "mode_matrix acts ''auto'' = Inr a"
    using mode_matrix_total[OF assms(2), where t = "''auto''"] by (auto simp: TRANSPORT_TYPES_table dom_def)
  obtain p where p: "mode_matrix acts ''transporte_publico'' = Inr p"
    using mode_matrix_total[OF assms(2), where t = "''transporte_publico''"] by (auto simp: TRANSPORT_TYPES_table dom_def)
  show ?thesis using assms(1) a b p by (simp add: handleCalculate_def)
qed

lemma min_matrix_length: "length (min_matrix n b a p) = n"
  by (simp add: min_matrix_def)

lemma min_matrix_row_length: "i < n \<Longrightarrow> length (min_matrix n b a p ! i) = n"
  by (simp add: min_matrix_def)

lemma min_matrix_entry:
  "i < n \<Longrightarrow> j < n \<Longrightarrow> min_matrix n b a p ! i ! j =
     (if i = j then 0 else min (b ! i ! j) (min (a ! i ! j) (p ! i ! j)))"
  by (simp add: min_matrix_def)

lemma ctt_sym: "calculateTravelTime z1 z2 t = calculateTravelTime z2 z1 t"
proof -
  have "(a - b) * (a - b) = (b - a) * (b - a)" for a b :: real
    by (simp add: algebra_simps)
  then show ?thesis
    by (auto simp: calculateTravelTime_def Let_def split: option.splits)
qed


lemma mode_matrix_sym:
  assumes "mode_matrix acts t = Inr m" and "i < length acts" and "j < length acts"
  shows "m ! i ! j = m ! j ! i"
proof (cases "i = j")
  case True
  then show ?thesis by simp
next
  case False
  from mode_matrix_entry[OF assms(1,2,3)] False
  have 1: "calculateTravelTime (act_zone (acts ! i)) (act_zone (acts ! j)) t = Inr (m ! i ! j)"
    by simp
  from mode_matrix_entry[OF assms(1,3,2)] False
  have 2: "calculateTravelTime (act_zone (acts ! j)) (act_zone (acts ! i)) t = Inr (m ! j ! i)"
    by simp
  from 1 2 ctt_sym[of "act_zone (acts ! i)" "act_zone (acts ! j)" t] show ?thesis by simp
qed


lemma ctt_auto_fastest:
  assumes "calculateTravelTime z1 z2 ''auto'' = Inr a"
    and "calculateTravelTime z1 z2 ''bicicleta'' = Inr b"
    and "calculateTravelTime z1 z2 ''transporte_publico'' = Inr p"
  shows "a \<le> b \<and> a \<le> p"
proof (cases "z1 = z2")
  case True
  with assms show ?thesis by (simp add: calculateTravelTime_def)
next
  case False
  with assms(1) obtain u v where u: "ZONES z1 = Some u" and v: "ZONES z2 = Some v"
    by (auto simp: calculateTravelTime_def split: option.splits)
  define d where "d = sqrt ((zone_x u - zone_x v) * (zone_x u - zone_x v) +
                            (zone_y u - zone_y v) * (zone_y u - zone_y v))"
  have d0: "0 \<le> d" unfolding d_def by simp
  have "a = d / 40" "b = d / 15" "p = d / 25"
    using assms False u v
    by (simp_all add: calculateTravelTime_def Let_def TRANSPORT_TYPES_table d_def)
  with d0 show ?thesis by simp
qed


lemma exampleActivities_ok:
  "exampleActivities \<noteq> [] \<and> (\<forall>a \<in> set exampleActivities. act_zone a \<in> dom ZONES)"
  by (simp add: exampleActivities_def ZONES_dom)

lemma exampleActivities_length: "length exampleActivities = 10"
  by (simp add: exampleActivities_def)

text \<open>
  Claim C2. For an activity list of length \<open>n\<close>, the request is built whenever the list is
  not empty and every zone is a key of the zone table, and in every request built the
  combined matrix \<open>travel_time\<close> holds, at each off-diagonal position, the minimum of the
  bicycle, car and public-transport entries at that position, and 0 on the diagonal.
\<close>

theorem handleCalculate_combined_is_min:
  "(acts \<noteq> [] \<and> (\<forall>a \<in> set acts. act_zone a \<in> dom ZONES)
      \<longrightarrow> (\<exists>req. handleCalculate acts pt tm al = Inr req)) \<and>
   (\<forall>req. handleCalculate acts pt tm al = Inr req \<longrightarrow>
      (\<forall>i < length acts. \<forall>j < length acts. i \<noteq> j \<longrightarrow>
         travel_time req ! i ! j =
           min (travel_time_bicicleta req ! i ! j)
             (min (travel_time_auto req ! i ! j) (travel_time_transporte_publico req ! i ! j))) \<and>
      (\<forall>i < length acts. travel_time req ! i ! i = 0))"
proof (intro conjI allI impI)
  assume "acts \<noteq> [] \<and> (\<forall>a \<in> set acts. act_zone a \<in> dom ZONES)"
  then show "\<exists>req. handleCalculate acts pt tm al = Inr req"
    using handleCalculate_total[of acts pt tm al] by blast
next
  fix req i j
  assume h: "handleCalculate acts pt tm al = Inr req"
    and ij: "i < length acts" "j < length acts" "i \<noteq> j"
  show "travel_time req ! i ! j =
           min (travel_time_bicicleta req ! i ! j)
             (min (travel_time_auto req ! i ! j) (travel_time_transporte_publico req ! i ! j))"
    using ij by (simp add: handleCalculate_Inr(5)[OF h] min_matrix_entry)
next
  fix req i
  assume h: "handleCalculate acts pt tm al = Inr req" and i: "i < length acts"
  show "travel_time req ! i ! i = 0"
    using i by (simp add: handleCalculate_Inr(5)[OF h] min_matrix_entry)
qed


theorem handleCalculate_combined_is_min_witness:
  "\<exists>req. handleCalculate exampleActivities ''bicicleta'' 20 (1 / 4) = Inr req \<and>
     travel_time req ! 0 ! 1 =
       min (travel_time_bicicleta req ! 0 ! 1)
         (min (travel_time_auto req ! 0 ! 1) (travel_time_transporte_publico req ! 0 ! 1)) \<and>
     travel_time req ! 0 ! 0 = 0"
proof -
  note T = handleCalculate_combined_is_min[of exampleActivities "''bicicleta''" 20 "1 / 4"]
  from T[THEN conjunct1, rule_format, OF exampleActivities_ok]
  obtain req where r: "handleCalculate exampleActivities ''bicicleta'' 20 (1 / 4) = Inr req" ..
  note P = T[THEN conjunct2, rule_format, OF r, unfolded exampleActivities_length]
  have "travel_time req ! 0 ! 1 =
       min (travel_time_bicicleta req ! 0 ! 1)
         (min (travel_time_auto req ! 0 ! 1) (travel_time_transporte_publico req ! 0 ! 1))"
    by (rule P[THEN conjunct1, rule_format]) simp_all
  moreover have "travel_time req ! 0 ! 0 = 0"
    by (rule P[THEN conjunct2, rule_format]) simp
  ultimately show ?thesis using r by blast
qed

lemma square_zero_symI:
  assumes "length m = n" "\<And>i. i < n \<Longrightarrow> length (m ! i) = n"
    "\<And>i. i < n \<Longrightarrow> m ! i ! i = 0"
    "\<And>i j. i < n \<Longrightarrow> j < n \<Longrightarrow> m ! i ! j = m ! j ! i"
  shows "square_zero_sym n m"
  unfolding square_zero_sym_def
  apply (intro conjI allI impI)
     apply (rule assms(1))
    apply (erule assms(2))
   apply (erule assms(3))
  apply (erule (1) assms(4))
  done

lemma square_zero_sym_symD:
  assumes "square_zero_sym n m" "i < n" "j < n"
  shows "m ! i ! j = m ! j ! i"
proof -
  from assms(1) have "\<forall>i < n. \<forall>j < n. m ! i ! j = m ! j ! i"
    unfolding square_zero_sym_def by (elim conjE)
  then show ?thesis using assms(2,3) by (elim allE impE)
qed

lemma mode_matrix_square_zero_sym:
  assumes "mode_matrix acts t = Inr m"
  shows "square_zero_sym (length acts) m"
  by (rule square_zero_symI)
    (rule mode_matrix_length[OF assms] mode_matrix_row_length[OF assms]
       mode_matrix_diag[OF assms] mode_matrix_sym[OF assms]; assumption)+

lemma min_matrix_square_zero_sym:
  assumes "square_zero_sym n b" "square_zero_sym n a" "square_zero_sym n p"
  shows "square_zero_sym n (min_matrix n b a p)"
proof (rule square_zero_symI)
  show "length (min_matrix n b a p) = n" by (rule min_matrix_length)
next
  fix i assume "i < n"
  then show "length (min_matrix n b a p ! i) = n" by (rule min_matrix_row_length)
next
  fix i assume i: "i < n"
  show "min_matrix n b a p ! i ! i = 0"
    using min_matrix_entry[OF i i] by simp
next
  fix i j assume ij: "i < n" "j < n"
  show "min_matrix n b a p ! i ! j = min_matrix n b a p ! j ! i"
  proof (cases "i = j")
    case True
    then show ?thesis by simp
  next
    case False
    have l: "min_matrix n b a p ! i ! j = min (b ! i ! j) (min (a ! i ! j) (p ! i ! j))"
      using min_matrix_entry[OF ij] False by simp
    have r: "min_matrix n b a p ! j ! i = min (b ! j ! i) (min (a ! j ! i) (p ! j ! i))"
      using min_matrix_entry[OF ij(2,1)] False by simp
    show ?thesis
      unfolding l r
      by (simp only: square_zero_sym_symD[OF assms(1) ij] square_zero_sym_symD[OF assms(2) ij]
          square_zero_sym_symD[OF assms(3) ij])
  qed
qed

text \<open>
  Claim C3. In every request built from \<open>n\<close> activities, each of the four travel matrices
  (combined, bicycle, car, public transport) is square of dimension \<open>n\<close>, has zero on the
  diagonal and is symmetric.
\<close>

theorem handleCalculate_matrices_square_zero_sym:
  "(acts \<noteq> [] \<and> (\<forall>a \<in> set acts. act_zone a \<in> dom ZONES)
      \<longrightarrow> (\<exists>req. handleCalculate acts pt tm al = Inr req)) \<and>
   (\<forall>req. handleCalculate acts pt tm al = Inr req \<longrightarrow>
      square_zero_sym (length acts) (travel_time req) \<and>
      square_zero_sym (length acts) (travel_time_bicicleta req) \<and>
      square_zero_sym (length acts) (travel_time_auto req) \<and>
      square_zero_sym (length acts) (travel_time_transporte_publico req))"
proof (intro conjI allI impI)
  assume "acts \<noteq> [] \<and> (\<forall>a \<in> set acts. act_zone a \<in> dom ZONES)"
  then show "\<exists>req. handleCalculate acts pt tm al = Inr req"
    using handleCalculate_total[of acts pt tm al] by blast
next
  fix req assume h: "handleCalculate acts pt tm al = Inr req"
  note m = handleCalculate_Inr[OF h]
  show b: "square_zero_sym (length acts) (travel_time_bicicleta req)"
    by (rule mode_matrix_square_zero_sym[OF m(2)])
  show a: "square_zero_sym (length acts) (travel_time_auto req)"
    by (rule mode_matrix_square_zero_sym[OF m(3)])
  show p: "square_zero_sym (length acts) (travel_time_transporte_publico req)"
    by (rule mode_matrix_square_zero_sym[OF m(4)])
  show "square_zero_sym (length acts) (travel_time req)"
    unfolding m(5) by (rule min_matrix_square_zero_sym[OF b a p])
qed


theorem handleCalculate_matrices_square_zero_sym_witness:
  "\<exists>req. handleCalculate exampleActivities ''bicicleta'' 20 (1 / 4) = Inr req \<and>
     square_zero_sym 10 (travel_time req) \<and>
     square_zero_sym 10 (travel_time_bicicleta req) \<and>
     square_zero_sym 10 (travel_time_auto req) \<and>
     square_zero_sym 10 (travel_time_transporte_publico req)"
proof -
  note T = handleCalculate_matrices_square_zero_sym[of exampleActivities "''bicicleta''" 20 "1 / 4"]
  from T[THEN conjunct1, rule_format, OF exampleActivities_ok]
  obtain req where r: "handleCalculate exampleActivities ''bicicleta'' 20 (1 / 4) = Inr req" ..
  note P = T[THEN conjunct2, rule_format, OF r, unfolded exampleActivities_length]
  from r P show ?thesis by (intro exI[of _ req] conjI) (simp_all only:)
qed

text \<open>
  Claim C10. In every request built, the combined matrix equals the car matrix entry by
  entry: the car is the fastest mode, so the minimum over the three modes is the car's
  time (and all are 0 on same-zone pairs and on the diagonal).
\<close>

theorem handleCalculate_combined_eq_auto:
  "(acts \<noteq> [] \<and> (\<forall>a \<in> set acts. act_zone a \<in> dom ZONES)
      \<longrightarrow> (\<exists>req. handleCalculate acts pt tm al = Inr req)) \<and>
   (\<forall>req. handleCalculate acts pt tm al = Inr req \<longrightarrow> travel_time req = travel_time_auto req)"
proof (intro conjI allI impI)
  assume "acts \<noteq> [] \<and> (\<forall>a \<in> set acts. act_zone a \<in> dom ZONES)"
  then show "\<exists>req. handleCalculate acts pt tm al = Inr req"
    using handleCalculate_total[of acts pt tm al] by blast
next
  fix req assume h: "handleCalculate acts pt tm al = Inr req"
  note m = handleCalculate_Inr[OF h]
  let ?n = "length acts"
  let ?b = "travel_time_bicicleta req" and ?a = "travel_time_auto req"
    and ?p = "travel_time_transporte_publico req"
  have entry: "min_matrix ?n ?b ?a ?p ! i ! j = ?a ! i ! j" if ij: "i < ?n" "j < ?n" for i j
  proof (cases "i = j")
    case True
    then show ?thesis using ij mode_matrix_diag[OF m(3)] by (simp add: min_matrix_entry)
  next
    case False
    have "?a ! i ! j \<le> ?b ! i ! j \<and> ?a ! i ! j \<le> ?p ! i ! j"
      using ctt_auto_fastest mode_matrix_entry[OF m(3) ij] mode_matrix_entry[OF m(2) ij]
        mode_matrix_entry[OF m(4) ij] False by simp
    then show ?thesis using ij False by (simp add: min_matrix_entry)
  qed
  show "travel_time req = travel_time_auto req"
    unfolding m(5)
  proof (rule nth_equalityI)
    show "length (min_matrix ?n ?b ?a ?p) = length ?a"
      by (simp add: min_matrix_length mode_matrix_length[OF m(3)])
  next
    fix i assume "i < length (min_matrix ?n ?b ?a ?p)"
    then have i: "i < ?n" by (simp add: min_matrix_length)
    show "min_matrix ?n ?b ?a ?p ! i = ?a ! i"
    proof (rule nth_equalityI)
      show "length (min_matrix ?n ?b ?a ?p ! i) = length (?a ! i)"
        using i by (simp add: min_matrix_row_length mode_matrix_row_length[OF m(3)])
    next
      fix j assume "j < length (min_matrix ?n ?b ?a ?p ! i)"
      then have "j < ?n" using i by (simp add: min_matrix_row_length)
      then show "min_matrix ?n ?b ?a ?p ! i ! j = ?a ! i ! j" using entry i by simp
    qed
  qed
qed

theorem handleCalculate_combined_eq_auto_witness:
  "\<exists>req. handleCalculate exampleActivities ''bicicleta'' 20 (1 / 4) = Inr req \<and>
     travel_time req = travel_time_auto req"
proof -
  note T = handleCalculate_combined_eq_auto[of exampleActivities "''bicicleta''" 20 "1 / 4"]
  from T[THEN conjunct1, rule_format, OF exampleActivities_ok]
  obtain req where r: "handleCalculate exampleActivities ''bicicleta'' 20 (1 / 4) = Inr req" ..
  from r T[THEN conjunct2, rule_format, OF r] show ?thesis by (intro exI[of _ req] conjI)
qed

section \<open>Activity identifiers\<close>

lemma reindexedActivities_ids: "map req_id (reindexedActivities acts) = [0..<length acts]"
proof -
  have "map req_id (reindexedActivities acts) = map fst (enumerate 0 acts)"
    by (simp add: reindexedActivities_def case_prod_beta comp_def)
  then show ?thesis by simp
qed

lemma reindexedActivities_distinct: "distinct (map req_id (reindexedActivities acts))"
  by (simp add: reindexedActivities_ids)

lemma handleCalculate_ids_distinct:
  "handleCalculate acts pt tm al = Inr req \<Longrightarrow> distinct (map req_id (activities req))"
  by (simp add: handleCalculate_Inr(6) reindexedActivities_distinct)

text \<open>
  Claim C4. Identifiers in the activity list of the form are meant to be unique (they
  select the activity to delete). Adding two activities, deleting the one with id 0 and
  adding a third leaves two activities with id 1, because the new id is the length of
  the list; deleting id 1 then removes both. The identifiers of a request are the
  positions \<open>0 .. n-1\<close> (lemma \<open>reindexedActivities_ids\<close>), so they stay distinct.
\<close>

theorem handleAddActivity_id_collision:
  "map act_id (ui_run parseFloat
      [AddActivity filledForm, AddActivity filledForm, DeleteActivity 0, AddActivity filledForm])
     = [1, 1] \<and>
   ui_run parseFloat
      [AddActivity filledForm, AddActivity filledForm, DeleteActivity 0, AddActivity filledForm,
       DeleteActivity 1] = []"
  by (simp add: ui_run_def handleAddActivity_def handleDeleteActivity_def filledForm_def)

section \<open>Properties of the optimization service\<close>

lemma map_filter_empty_iff:
  "List.map_filter f xs = [] \<longleftrightarrow> (\<forall>x \<in> set xs. f x = None)"
  by (induction xs) (auto simp: List.map_filter_simps split: option.splits)

lemma validate_activity_None:
  "validate_activity a = None \<longleftrightarrow>
     \<not> (req_close_time a \<le> req_open_time a \<or> req_duration a \<le> 0 \<or>
        req_close_time a - req_open_time a < req_duration a)"
  by (simp add: validate_activity_def)

lemma validate_config_None:
  "validate_config c = None \<longleftrightarrow> \<not> (time_budget c \<le> 0 \<or> weight c < 0)"
  by (simp add: validate_config_def)

lemma keep_all:
  assumes "\<forall>x \<in> set xs. Q x"
  shows "filter (\<lambda>i. Q (xs ! i)) [0..<length xs] = [0..<length xs]"
  using assms by (auto simp: filter_id_conv)

lemma encode_Inl_iff:
  "(\<exists>e. encode inp = Inl e) \<longleftrightarrow>
     (\<exists>a \<in> set (in_activities inp). validate_activity a \<noteq> None) \<or>
     validate_config (in_config inp) \<noteq> None"
proof (cases "List.map_filter validate_activity (in_activities inp)")
  case Nil
  then have "\<forall>a \<in> set (in_activities inp). validate_activity a = None"
    by (simp add: map_filter_empty_iff)
  with Nil show ?thesis
    by (cases "validate_config (in_config inp)") (simp_all add: encode_def Let_def)
next
  case (Cons e es)
  then have "\<not> (\<forall>a \<in> set (in_activities inp). validate_activity a = None)"
    by (simp add: map_filter_empty_iff[symmetric])
  with Cons show ?thesis by (auto simp: encode_def)
qed

lemma encode_valid:
  assumes "\<forall>a \<in> set (in_activities inp). validate_activity a = None"
    and "validate_config (in_config inp) = None"
  shows "encode inp =
     Inr \<lparr>p_activities = in_activities inp,
          p_combined = map (\<lambda>i. map (\<lambda>j. in_combined inp ! i ! j)
                         [0..<length (in_activities inp)]) [0..<length (in_activities inp)],
          p_discouraged = map (\<lambda>i. map (\<lambda>j. in_discouraged inp ! i ! j)
                         [0..<length (in_activities inp)]) [0..<length (in_activities inp)],
          p_config = in_config inp\<rparr>"
proof -
  have nil: "List.map_filter validate_activity (in_activities inp) = []"
    using assms(1) by (simp add: map_filter_empty_iff)
  have "\<forall>a \<in> set (in_activities inp). fits_window a"
    using assms(1) by (auto simp: validate_activity_None fits_window_def)
  then have keep: "filter (\<lambda>i. fits_window (in_activities inp ! i))
      [0..<length (in_activities inp)] = [0..<length (in_activities inp)]"
    by (rule keep_all)
  show ?thesis
    unfolding encode_def nil Let_def keep using assms(2) by (simp add: map_nth)
qed

lemma legs_append:
  "legs (r @ [q]) = legs r @ (if r = [] then [] else [(last r, q)])"
  by (induction r rule: legs.induct) auto

lemma length_timeline: "length (timeline P t prev r) = length r"
  by (induction r arbitrary: t prev) (simp_all add: Let_def)

lemma timeline_append:
  "timeline P t prev (r @ [q]) = timeline P t prev r @
     [(clock_after P t prev r + hop (p_combined P) (prev @ r) q,
       max (clock_after P t prev r + hop (p_combined P) (prev @ r) q)
         (req_open_time (p_activities P ! q)),
       max (clock_after P t prev r + hop (p_combined P) (prev @ r) q)
         (req_open_time (p_activities P ! q)) + req_duration (p_activities P ! q))]"
  by (induction r arbitrary: t prev) (simp_all add: Let_def)

lemma clock_after_append:
  "clock_after P t prev (r @ [q]) =
     max (clock_after P t prev r + hop (p_combined P) (prev @ r) q)
       (req_open_time (p_activities P ! q)) + req_duration (p_activities P ! q)"
  by (induction r arbitrary: t prev) (simp_all add: Let_def)

lemma hop_legs:
  "sum_list (map (\<lambda>(p, q). M ! p ! q) (legs (r @ [q]))) =
   sum_list (map (\<lambda>(p, q). M ! p ! q) (legs r)) + hop M r q"
  by (simp add: legs_append hop_def)

lemma clock_after_total_elapsed: "clock_after P 0 [] r = total_elapsed P r"
proof (induction r rule: rev_induct)
  case Nil
  show ?case by (simp add: total_elapsed_def)
next
  case (snoc q r)
  have "total_elapsed P (r @ [q]) =
      total_elapsed P r + hop (p_combined P) r q + req_duration (p_activities P ! q)
      + (max (clock_after P 0 [] r + hop (p_combined P) r q)
           (req_open_time (p_activities P ! q))
         - (clock_after P 0 [] r + hop (p_combined P) r q))"
    unfolding total_elapsed_def by (simp add: hop_legs timeline_append)
  with snoc.IH show ?case by (simp add: clock_after_append)
qed

lemma transition_SomeD:
  assumes "transition P s q = Some s'"
  shows "q \<notin> s_used s"
    and "s_route s' = s_route s @ [q]"
    and "s_used s' = insert q (s_used s)"
    and "s_value s' = s_value s + req_value (p_activities P ! q)"
    and "s_exposure s' = s_exposure s + hop (p_discouraged P) (s_route s) q"
    and "s_elapsed s' =
           max (s_elapsed s + hop (p_combined P) (s_route s) q)
             (req_open_time (p_activities P ! q)) + req_duration (p_activities P ! q)"
    and "s_elapsed s' \<le> req_close_time (p_activities P ! q)"
    and "s_elapsed s' \<le> time_budget (p_config P)"
  using assms by (auto simp: transition_def Let_def split: if_splits)

lemma expand_D:
  assumes "c \<in> set (expand P s)"
  shows "\<exists>q < length (p_activities P). transition P s q = Some c"
proof -
  from assms have "c \<in> set (map (the \<circ> transition P s)
      (filter (\<lambda>q. transition P s q \<noteq> None) [0..<length (p_activities P)]))"
    by (simp add: expand_def List.map_filter_def)
  then obtain q where "q < length (p_activities P)" "transition P s q \<noteq> None"
    "c = the (transition P s q)" by auto
  then show ?thesis by auto
qed

lemma consistent_transition:
  assumes "consistent P s" and "transition P s q = Some s'"
  shows "consistent P s'"
  using assms(1) transition_SomeD[OF assms(2)]
  by (simp add: consistent_def hop_legs clock_after_append)

lemma consistent_empty: "consistent P empty_schedule"
  by (simp add: consistent_def empty_schedule_def)

lemma windows_respected_append:
  "windows_respected P (r @ [q]) \<longleftrightarrow>
     windows_respected P r \<and>
     visit_ok P (q, clock_after P 0 [] r + hop (p_combined P) r q,
       max (clock_after P 0 [] r + hop (p_combined P) r q)
         (req_open_time (p_activities P ! q)),
       max (clock_after P 0 [] r + hop (p_combined P) r q)
         (req_open_time (p_activities P ! q)) + req_duration (p_activities P ! q))"
  by (simp add: windows_respected_def timeline_append length_timeline)

lemma valid_schedule_empty:
  "0 \<le> time_budget (p_config P) \<Longrightarrow> valid_schedule P empty_schedule"
  by (simp add: valid_schedule_def consistent_empty)
     (simp add: empty_schedule_def windows_respected_def)

lemma valid_schedule_transition:
  assumes v: "valid_schedule P s" and q: "q < length (p_activities P)"
    and t: "transition P s q = Some s'"
  shows "valid_schedule P s'"
proof -
  note d = transition_SomeD[OF t]
  from v have c: "consistent P s" and dist: "distinct (s_route s)"
    and rng: "list_all (\<lambda>q. q < length (p_activities P)) (s_route s)"
    and w: "windows_respected P (s_route s)"
    by (simp_all add: valid_schedule_def)
  from c have used: "s_used s = set (s_route s)"
    and el: "s_elapsed s = clock_after P 0 [] (s_route s)"
    by (simp_all add: consistent_def)
  have "consistent P s'" by (rule consistent_transition[OF c t])
  moreover have "distinct (s_route s')" using dist d(1) used by (simp add: d(2))
  moreover have "list_all (\<lambda>q. q < length (p_activities P)) (s_route s')"
    using rng q by (simp add: d(2))
  moreover have "windows_respected P (s_route s')"
  proof -
    let ?arr = "clock_after P 0 [] (s_route s) + hop (p_combined P) (s_route s) q"
    let ?st = "max ?arr (req_open_time (p_activities P ! q))"
    let ?fin = "?st + req_duration (p_activities P ! q)"
    have f: "?fin \<le> req_close_time (p_activities P ! q)" "?fin \<le> time_budget (p_config P)"
      using d(7,8) unfolding d(6) el .
    have "visit_ok P (q, ?arr, ?st, ?fin)"
      unfolding visit_ok_def prod.case using f by (intro conjI; linarith)
    with w show ?thesis unfolding d(2) windows_respected_append by simp
  qed
  moreover have "s_elapsed s' \<le> time_budget (p_config P)" by (rule d(8))
  ultimately show ?thesis by (simp add: valid_schedule_def)
qed

lemma valid_schedule_expand:
  assumes "valid_schedule P s" and "c \<in> set (expand P s)"
  shows "valid_schedule P c"
  using expand_D[OF assms(2)] valid_schedule_transition[OF assms(1)] by blast

lemma pick_best_invariant:
  assumes upd: "\<And>b c. Qb b \<Longrightarrow> Qf c \<Longrightarrow> better P c b \<Longrightarrow> Qb c"
  shows "Qb b \<Longrightarrow> \<forall>c \<in> set cs. Qf c \<Longrightarrow>
    Qb (foldl (\<lambda>b c. if better P c b then c else b) b cs)"
proof (induction cs arbitrary: b)
  case Nil
  then show ?case by simp
next
  case (Cons c cs)
  have "Qb (if better P c b then c else b)"
    using Cons.prems upd[of b c] by simp
  then show ?case using Cons.IH Cons.prems(2) by simp
qed

lemma set_push: "set (push P c f) = insert c (set f)"
  by (induction f) auto

lemma set_foldl_push: "set (foldl (\<lambda>f c. push P c f) f cs) = set f \<union> set cs"
  by (induction cs arbitrary: f) (auto simp: set_push)

lemma search_invariant:
  assumes step: "\<And>s c. Qf s \<Longrightarrow> c \<in> set (expand P s) \<Longrightarrow> Qf c"
    and upd: "\<And>b c. Qb b \<Longrightarrow> Qf c \<Longrightarrow> better P c b \<Longrightarrow> Qb c"
  shows "Qb best \<Longrightarrow> \<forall>s \<in> set frontier. Qf s \<Longrightarrow> Qb (search P limit frontier best)"
proof (induction limit arbitrary: frontier best)
  case 0
  then show ?case by simp
next
  case (Suc limit)
  show ?case
  proof (cases "filter (\<lambda>s. sched_objective P best < bound P s) frontier")
    case Nil
    with Suc.prems(1) show ?thesis by simp
  next
    case (Cons s rest)
    have "set (s # rest) \<subseteq> set frontier"
      unfolding Cons[symmetric] by simp
    with Suc.prems(2) have s: "Qf s" and rest: "\<forall>x \<in> set rest. Qf x" by auto
    have succ: "\<forall>c \<in> set (expand P s). Qf c" using step[OF s] by blast
    have b': "Qb (foldl (\<lambda>b c. if better P c b then c else b) best (expand P s))"
      using upd Suc.prems(1) succ by (rule pick_best_invariant[where Qf = Qf and Qb = Qb and P = P])
    have f': "\<forall>x \<in> set (foldl (\<lambda>f c. push P c f) rest (expand P s)). Qf x"
      using rest succ by (auto simp: set_foldl_push)
    show ?thesis
      using Suc.IH[OF b' f'] Cons by (simp add: Let_def)
  qed
qed

lemma engine_valid:
  assumes "0 \<le> time_budget (p_config P)"
  shows "valid_schedule P (engine limit P)"
  unfolding engine_def
proof (rule search_invariant[where Qf = "valid_schedule P" and Qb = "valid_schedule P"])
  show "valid_schedule P empty_schedule" by (rule valid_schedule_empty[OF assms])
  then show "\<forall>s \<in> set [empty_schedule]. valid_schedule P s" by simp
qed (simp_all add: valid_schedule_expand)



lemma evaluate_consistent:
  assumes "consistent P s"
  shows "m_objective (evaluate P s) = sched_objective P s"
    and "m_total_value (evaluate P s) = s_value s"
    and "m_discouraged_travel_cost (evaluate P s) = s_exposure s"
    and "m_final_time (evaluate P s) = s_elapsed s"
  using assms by (simp_all add: evaluate_def consistent_def sched_objective_def Let_def)


lemma upt_0_2: "[0..<2] = [0, 1]"
  by (simp add: upt_rec)

lemma scenarioC_encode:
  "0 < b \<Longrightarrow> encode (scenarioC b) =
     Inr \<lparr>p_activities = in_activities (scenarioC b), p_combined = in_combined (scenarioC b),
          p_discouraged = in_discouraged (scenarioC b), p_config = in_config (scenarioC b)\<rparr>"
  by (simp add: encode_def validate_activity_def validate_config_def fits_window_def
      List.map_filter_simps scenarioC_def upt_0_2 Let_def)

lemma validation_error_field: "\<exists>field. e = Validation field"
  by (cases e) simp

lemma encode_InrD:
  assumes "encode inp = Inr P"
  shows "\<forall>a \<in> set (in_activities inp). validate_activity a = None"
    and "validate_config (in_config inp) = None"
    and "p_activities P = in_activities inp"
    and "p_config P = in_config inp"
    and "0 < time_budget (p_config P)"
proof -
  from assms have "\<not> (\<exists>e. encode inp = Inl e)" by simp
  then show a: "\<forall>a \<in> set (in_activities inp). validate_activity a = None"
    and c: "validate_config (in_config inp) = None"
    unfolding encode_Inl_iff by simp_all
  from encode_valid[OF a c] assms
  show "p_activities P = in_activities inp" and cfg: "p_config P = in_config inp" by auto
  from c show "0 < time_budget (p_config P)"
    unfolding cfg by (simp add: validate_config_None)
qed

text \<open>
  Claim C5. The Problem Encoder fails with a Validation error on every input that has an
  activity with \<open>close_time \<le> open_time\<close>, with \<open>duration \<le> 0\<close> or with a duration that
  exceeds its window, or a RunConfig with \<open>time_budget \<le> 0\<close> or \<open>weight < 0\<close>, and then the
  whole run fails with that error whatever the expansion limit (no search result is
  produced); on every other input it succeeds with the problem instance that holds the
  activities, both matrices reindexed to their positions and the RunConfig, and the run
  returns a response. The encoder is a function of its input, so it has no other effect.
\<close>

theorem encode_validation:
  "(if (\<exists>a \<in> set (in_activities inp).
          req_close_time a \<le> req_open_time a \<or> req_duration a \<le> 0 \<or>
          req_close_time a - req_open_time a < req_duration a) \<or>
       time_budget (in_config inp) \<le> 0 \<or> weight (in_config inp) < 0
    then \<exists>field. encode inp = Inl (Validation field) \<and>
           (\<forall>limit. optimize limit inp = Inl (Validation field))
    else encode inp =
           Inr \<lparr>p_activities = in_activities inp,
                p_combined = map (\<lambda>i. map (\<lambda>j. in_combined inp ! i ! j)
                    [0..<length (in_activities inp)]) [0..<length (in_activities inp)],
                p_discouraged = map (\<lambda>i. map (\<lambda>j. in_discouraged inp ! i ! j)
                    [0..<length (in_activities inp)]) [0..<length (in_activities inp)],
                p_config = in_config inp\<rparr> \<and>
         (\<forall>limit. \<exists>r. optimize limit inp = Inr r))"
proof (cases "(\<exists>a \<in> set (in_activities inp). validate_activity a \<noteq> None) \<or>
     validate_config (in_config inp) \<noteq> None")
  case True
  then obtain e where e: "encode inp = Inl e" unfolding encode_Inl_iff[symmetric] ..
  obtain field where f: "e = Validation field" using validation_error_field by blast
  have "\<forall>limit. optimize limit inp = Inl (Validation field)"
    using e f by (simp add: optimize_def)
  with e f True show ?thesis
    by (auto simp: validate_activity_None validate_config_None)
next
  case False
  then have a: "\<forall>a \<in> set (in_activities inp). validate_activity a = None"
    and c: "validate_config (in_config inp) = None" by simp_all
  note enc = encode_valid[OF a c]
  have "\<forall>limit. \<exists>r. optimize limit inp = Inr r"
    by (simp add: optimize_def enc)
  with enc a c show ?thesis
    by (auto simp: validate_activity_None validate_config_None)
qed

theorem encode_validation_witness:
  "(\<exists>field. encode scenarioB = Inl (Validation field) \<and>
      optimize 100 scenarioB = Inl (Validation field)) \<and>
   p_activities (projr (encode (scenarioC 5))) = in_activities (scenarioC 5) \<and>
   (\<exists>r. optimize 100 (scenarioC 5) = Inr r)"
proof -
  have b: "\<exists>a \<in> set (in_activities scenarioB).
          req_close_time a \<le> req_open_time a \<or> req_duration a \<le> 0 \<or>
          req_close_time a - req_open_time a < req_duration a"
    by (simp add: scenarioB_def)
  have c: "\<not> ((\<exists>a \<in> set (in_activities (scenarioC 5)).
          req_close_time a \<le> req_open_time a \<or> req_duration a \<le> 0 \<or>
          req_close_time a - req_open_time a < req_duration a) \<or>
       time_budget (in_config (scenarioC 5)) \<le> 0 \<or> weight (in_config (scenarioC 5)) < 0)"
    by (simp add: scenarioC_def)
  from encode_validation[of scenarioB] b
  have 1: "\<exists>field. encode scenarioB = Inl (Validation field) \<and>
      optimize 100 scenarioB = Inl (Validation field)"
    by (simp only: if_True simp_thms) blast
  from encode_validation[of "scenarioC 5"] c
  have 2: "p_activities (projr (encode (scenarioC 5))) = in_activities (scenarioC 5) \<and>
     (\<exists>r. optimize 100 (scenarioC 5) = Inr r)"
    by (simp only: if_False) simp
  show ?thesis by (rule conjI[OF 1 2])
qed

lemma route_ids_distinct:
  assumes d: "distinct (map req_id (p_activities P))" and v: "valid_schedule P s"
  shows "distinct (route_ids P s)"
proof -
  from v have dr: "distinct (s_route s)"
    and rng: "\<forall>q \<in> set (s_route s). q < length (p_activities P)"
    by (simp_all add: valid_schedule_def list_all_iff)
  have "inj_on (\<lambda>q. req_id (p_activities P ! q)) (set (s_route s))"
  proof (rule inj_onI)
    fix i j assume i: "i \<in> set (s_route s)" and j: "j \<in> set (s_route s)"
      and eq: "req_id (p_activities P ! i) = req_id (p_activities P ! j)"
    from i j rng have "i < length (map req_id (p_activities P))"
      "j < length (map req_id (p_activities P))" by simp_all
    moreover from eq i j rng
    have "map req_id (p_activities P) ! i = map req_id (p_activities P) ! j" by simp
    ultimately show "i = j" using d by (simp only: nth_eq_iff_index_eq)
  qed
  with dr show ?thesis by (simp add: route_ids_def distinct_map)
qed

text \<open>
  Claim C6. For an input that the encoder accepts and whose activity ids are distinct
  (section 3), the Schedule that the Search Engine returns, for every expansion limit,
  satisfies the invariants of section 3: no activity id appears twice; every activity
  starts no earlier than it is reached and than its opening time and no later than its
  closing time minus its duration; the elapsed time is the sum of travel, durations and
  waits, and it is within the time budget. The response carries that route and that
  final time.
\<close>

theorem engine_schedule_invariants:
  assumes "encode inp = Inr P" and "distinct (map req_id (in_activities inp))"
  shows "optimize limit inp = Inr (build_result P (engine limit P)) \<and>
         map req_id (resp_route (build_result P (engine limit P))) =
           route_ids P (engine limit P) \<and>
         resp_final_time (build_result P (engine limit P)) = s_elapsed (engine limit P) \<and>
         distinct (route_ids P (engine limit P)) \<and>
         windows_respected P (s_route (engine limit P)) \<and>
         s_elapsed (engine limit P) = total_elapsed P (s_route (engine limit P)) \<and>
         s_elapsed (engine limit P) \<le> time_budget (p_config P)"
proof -
  note e = encode_InrD[OF assms(1)]
  have v: "valid_schedule P (engine limit P)"
    using e(5) by (intro engine_valid) simp
  then have c: "consistent P (engine limit P)" by (simp add: valid_schedule_def)
  have "optimize limit inp = Inr (build_result P (engine limit P))"
    by (simp add: optimize_def assms(1))
  moreover have "map req_id (resp_route (build_result P (engine limit P))) =
           route_ids P (engine limit P)"
    by (simp add: build_result_def route_ids_def Let_def)
  moreover have "resp_final_time (build_result P (engine limit P)) = s_elapsed (engine limit P)"
    by (simp add: build_result_def Let_def evaluate_consistent(4)[OF c])
  moreover have "distinct (route_ids P (engine limit P))"
    using assms(2) v unfolding e(3)[symmetric] by (rule route_ids_distinct)
  moreover have "windows_respected P (s_route (engine limit P))"
    using v by (simp add: valid_schedule_def)
  moreover have "s_elapsed (engine limit P) = total_elapsed P (s_route (engine limit P))"
    using c by (simp add: consistent_def clock_after_total_elapsed)
  moreover have "s_elapsed (engine limit P) \<le> time_budget (p_config P)"
    using v by (simp add: valid_schedule_def)
  ultimately show ?thesis by (intro conjI)
qed

theorem engine_schedule_invariants_witness:
  "\<exists>P. encode (scenarioC 12) = Inr P \<and>
     optimize 2 (scenarioC 12) = Inr (build_result P (engine 2 P)) \<and>
     map req_id (resp_route (build_result P (engine 2 P))) = route_ids P (engine 2 P) \<and>
     resp_final_time (build_result P (engine 2 P)) = s_elapsed (engine 2 P) \<and>
     distinct (route_ids P (engine 2 P)) \<and>
     windows_respected P (s_route (engine 2 P)) \<and>
     s_elapsed (engine 2 P) = total_elapsed P (s_route (engine 2 P)) \<and>
     s_elapsed (engine 2 P) \<le> time_budget (p_config P)"
proof -
  have enc: "encode (scenarioC 12) =
     Inr \<lparr>p_activities = in_activities (scenarioC 12), p_combined = in_combined (scenarioC 12),
          p_discouraged = in_discouraged (scenarioC 12), p_config = in_config (scenarioC 12)\<rparr>"
    by (rule scenarioC_encode) simp
  have ids: "distinct (map req_id (in_activities (scenarioC 12)))"
    by (simp add: scenarioC_def)
  from engine_schedule_invariants[OF enc ids, of 2] enc show ?thesis by blast
qed






end
